theory Spec2Isabelle
  imports Main "HOL-Library.Multiset" "HOL-Library.Word"
begin

section \<open>Go strings\<close>

text \<open>
  A Go string is a sequence of bytes; \<^typ>\<open>string\<close> is a list of 8-bit characters, one per
  byte. The functions of package \<open>strings\<close> that \<open>codeowners.go\<close> calls are written out here
  with the behaviour their documentation gives them.
\<close>

definition HasPrefix :: "string \<Rightarrow> string \<Rightarrow> bool" where
  "HasPrefix s prefix = (length prefix \<le> length s \<and> take (length prefix) s = prefix)"

text \<open>\<open>Index s substr\<close> is the index of the first instance of \<open>substr\<close> in \<open>s\<close>, or \<open>-1\<close>.\<close>

fun Index :: "string \<Rightarrow> string \<Rightarrow> int" where
  "Index [] substr = (if substr = [] then 0 else - 1)"
| "Index (c # s) substr =
     (if HasPrefix (c # s) substr then 0
      else (let i = Index s substr in if i < 0 then - 1 else i + 1))"

definition Contains :: "string \<Rightarrow> string \<Rightarrow> bool" where
  "Contains s substr = (0 \<le> Index s substr)"

text \<open>
  The slice expressions \<open>s[lo:hi]\<close> and \<open>s[lo:]\<close>. Go panics when the bounds are not
  \<open>0 \<le> lo \<le> hi \<le> len(s)\<close>; the panic is the value \<open>None\<close>.
\<close>

definition slice :: "string \<Rightarrow> int \<Rightarrow> int \<Rightarrow> string option" where
  "slice s lo hi =
     (if 0 \<le> lo \<and> lo \<le> hi \<and> hi \<le> int (length s)
      then Some (take (nat (hi - lo)) (drop (nat lo) s)) else None)"

definition slice_from :: "string \<Rightarrow> int \<Rightarrow> string option" where
  "slice_from s lo = slice s lo (int (length s))"

text \<open>
  \<open>strings.Split(s, sep)\<close> for a separator of one byte, which is how \<open>Get\<close> calls it
  (\<open>"\n"\<close>): the pieces between the separators, one more than there are separators.
\<close>

fun Split :: "string \<Rightarrow> char \<Rightarrow> string list" where
  "Split [] sep = [[]]"
| "Split (c # s) sep =
     (if c = sep then [] # Split s sep
      else (case Split s sep of [] \<Rightarrow> [[c]] | piece # pieces \<Rightarrow> (c # piece) # pieces))"

text \<open>
  \<open>strings.Fields\<close> splits around runs of white space as \<open>unicode.IsSpace\<close> defines it.
  On the UTF-8 bytes of the string the white-space runes are the six ASCII ones
  (tab, line feed, vertical tab, form feed, carriage return, space), U+0085 and U+00A0
  (two bytes), and U+1680, U+2000 to U+200A, U+2028, U+2029, U+202F, U+205F and U+3000
  (three bytes). \<open>space_width s\<close> is the number of bytes of the white-space rune that
  \<open>s\<close> starts with, and 0 when it starts with none.
\<close>

definition ascii_space :: "char \<Rightarrow> bool" where
  "ascii_space c = (c = CHR 0x09 \<or> c = CHR 0x0A \<or> c = CHR 0x0B \<or> c = CHR 0x0C
     \<or> c = CHR 0x0D \<or> c = CHR 0x20)"

fun space_width :: "string \<Rightarrow> nat" where
  "space_width [] = 0"
| "space_width [a] = (if ascii_space a then 1 else 0)"
| "space_width [a, b] =
     (if ascii_space a then 1
      else if a = CHR 0xC2 \<and> (b = CHR 0x85 \<or> b = CHR 0xA0) then 2 else 0)"
| "space_width (a # b # c # s) =
     (if ascii_space a then 1
      else if a = CHR 0xC2 \<and> (b = CHR 0x85 \<or> b = CHR 0xA0) then 2
      else if a = CHR 0xE1 \<and> b = CHR 0x9A \<and> c = CHR 0x80 then 3
      else if a = CHR 0xE2 \<and> b = CHR 0x80 \<and>
              (of_char c \<in> {0x80 .. 0x8A :: nat} \<or> c = CHR 0xA8 \<or> c = CHR 0xA9 \<or> c = CHR 0xAF)
           then 3
      else if a = CHR 0xE2 \<and> b = CHR 0x81 \<and> c = CHR 0x9F then 3
      else if a = CHR 0xE3 \<and> b = CHR 0x80 \<and> c = CHR 0x80 then 3
      else 0)"

text \<open>
  \<open>Fields_from skip word s\<close> scans \<open>s\<close>: \<open>skip\<close> counts the bytes still to drop of the
  white-space rune being crossed, \<open>word\<close> is the field read so far.
\<close>

fun Fields_from :: "nat \<Rightarrow> string \<Rightarrow> string \<Rightarrow> string list" where
  "Fields_from skip word [] = (if word = [] then [] else [word])"
| "Fields_from (Suc skip) word (c # s) = Fields_from skip word s"
| "Fields_from 0 word (c # s) =
     (let n = space_width (c # s) in
      if n = 0 then Fields_from 0 (word @ [c]) s
      else (if word = [] then [] else [word]) @ Fields_from (n - 1) [] s)"

definition Fields :: "string \<Rightarrow> string list" where
  "Fields s = Fields_from 0 [] s"

section \<open>Data\<close>

text \<open>
  An \<open>error\<close> value is either made by \<open>errors.New\<close> in this package or handed over by a
  library (the GitHub client, \<open>net/mail\<close>), of which only the message is kept.
\<close>

datatype error = errors_New string | lib_error string

text \<open>
  Modelled from the spec: \<open>github.User\<close>, declared in the client library, as the
  IdentityRecord of the spec's data model: three optional fields (Go: nil pointers).
\<close>

record User =
  Login :: "string option"
  Name :: "string option"
  Email :: "string option"

text \<open>
  Modelled from the spec: \<open>github.Team\<close>, declared in the client library, as the
  \<open>{slug, id}\<close> of the spec's \<open>listTeams\<close>; the id is an \<open>int64\<close>.
\<close>

record Team =
  Slug :: string
  ID :: "64 word"

text \<open>
  Modelled from the spec: the element of what \<open>listTeamMembers\<close> returns, \<open>{login}\<close>. The
  client library returns users of which \<open>expandteam\<close> reads the login only.
\<close>

type_synonym member = string

text \<open>
  \<open>mail.Address\<close> of the standard library: its two string fields \<open>Name\<close> and \<open>Address\<close>,
  here \<open>DisplayName\<close> and \<open>Addr\<close>.
\<close>

record Address =
  DisplayName :: string
  Addr :: string

text \<open>The two structs of \<open>codeowners.go\<close>. A slice that may be nil is an option: \<open>None\<close> is nil.\<close>

record codeOwner =
  path :: string
  owners :: "string list option"

record codeOwners =
  owner :: string
  repo :: string
  patterns :: "codeOwner list"

text \<open>
  What the package calls and does not define is a parameter, collected in one record:
  \<^item> \<open>glob\<close> is \<open>doublestar.Match\<close>: the verdict and the error for a pattern and a name;
  \<^item> \<open>ParseAddress\<close> is \<open>mail.ParseAddress\<close>;
  \<^item> \<open>GetContents\<close> is \<open>client.Repositories.GetContents\<close> followed by \<open>GetContent\<close> on
    the file it returns: \<open>Inl\<close> is the error of the request; \<open>Inr None\<close> is a request
    that succeeds without a file (the path is a directory), on whose nil file \<open>GetContent\<close>
    panics; \<open>Inr (Some (s, err))\<close> is the string and the error that \<open>GetContent\<close> returns;
  \<^item> \<open>ListTeams\<close>, \<open>ListTeamMembers\<close> and \<open>UsersGet\<close> are the calls of the same names on
    \<open>client.Organizations\<close> and \<open>client.Users\<close> (\<open>UsersGet\<close> is \<open>client.Users.Get\<close>).
  Each is a function of its arguments: during one call of \<open>Match\<close> the same request gets
  the same answer.
\<close>

record world =
  glob :: "string \<Rightarrow> string \<Rightarrow> bool \<times> error option"
  ParseAddress :: "string \<Rightarrow> error + Address"
  GetContents :: "string \<Rightarrow> string \<Rightarrow> string \<Rightarrow> error + (string \<times> error option) option"
  ListTeams :: "string \<Rightarrow> error + Team list"
  ListTeamMembers :: "64 word \<Rightarrow> error + member list"
  UsersGet :: "string \<Rightarrow> error + User"

section \<open>Loading the manifest: \<open>fetch\<close> and \<open>Get\<close>\<close>

text \<open>
  \<open>fetch\<close> tries the three locations in turn; a failed request moves on to the next
  location, the first successful request ends the loop with what \<open>GetContent\<close> returns,
  string and error as they are. A panic is \<open>None\<close>.
\<close>

fun fetch_loop :: "world \<Rightarrow> string \<Rightarrow> string \<Rightarrow> string list \<Rightarrow> error option \<Rightarrow> (string \<times> error option) option" where
  "fetch_loop w own rep [] err = Some ([], err)"
| "fetch_loop w own rep (filepath # files) err =
     (case GetContents w own rep (filepath @ ''CODEOWNERS'') of
        Inl e \<Rightarrow> fetch_loop w own rep files (Some e)
      | Inr None \<Rightarrow> None
      | Inr (Some (content, e)) \<Rightarrow> Some (content, e))"

definition fetch :: "world \<Rightarrow> string \<Rightarrow> string \<Rightarrow> (string \<times> error option) option" where
  "fetch w own rep = fetch_loop w own rep ['''', ''docs/'', ''.github/''] None"

text \<open>The loop of \<open>Get\<close> over the lines, with \<open>patterns\<close> as its accumulator.\<close>

fun Get_loop :: "string list \<Rightarrow> codeOwner list \<Rightarrow> codeOwner list" where
  "Get_loop [] pats = pats"
| "Get_loop (line # lines) pats =
     (let words = Fields line in
      if 1 < length words
      then Get_loop lines
             (pats @ [\<lparr>path = (if hd words = ''*'' then ''**'' else hd words),
                       owners = Some (tl words)\<rparr>])
      else Get_loop lines pats)"

definition Get :: "world \<Rightarrow> string \<Rightarrow> string \<Rightarrow> (codeOwners \<times> error option) option" where
  "Get w own rep =
     (case fetch w own rep of
        None \<Rightarrow> None
      | Some (content, Some err) \<Rightarrow> Some (\<lparr>owner = own, repo = rep, patterns = []\<rparr>, Some err)
      | Some (content, None) \<Rightarrow>
          Some (\<lparr>owner = own, repo = rep, patterns = Get_loop (Split content CHR 0x0A) []\<rparr>, None))"

section \<open>Selecting the rule: the first loop of \<open>Match\<close>\<close>

text \<open>
  The loop over \<open>co.patterns\<close>, with the local \<open>owners\<close> as its accumulator. The error
  that \<open>doublestar.Match\<close> returns is dropped (\<open>match, _ := ...\<close>).
\<close>

fun Match_select :: "world \<Rightarrow> codeOwner list \<Rightarrow> string \<Rightarrow> string list option \<Rightarrow> string list option" where
  "Match_select w [] file sel = sel"
| "Match_select w (pattern # pats) file sel =
     (case glob w (path pattern) file of
        (match, _) \<Rightarrow> Match_select w pats file (if match then owners pattern else sel))"

section \<open>The goroutines\<close>

text \<open>
  Each of \<open>expandowners\<close>, \<open>expandteam\<close>, \<open>fetchuser\<close> and \<open>finduseremail\<close> runs as a
  goroutine. Run to its end, a goroutine starts further goroutines, sends at most one
  value (on \<open>ch.data\<close> or on \<open>ch.err\<close>) and has made some calls to the remote service;
  that triple is its effect. A panic (a slice expression out of bounds) is \<open>None\<close>.
\<close>

datatype goroutine =
  Go_expandowners string | Go_expandteam string | Go_fetchuser string | Go_finduseremail string

datatype message = Data User | Err error

datatype call = Call_ListTeams string | Call_ListTeamMembers "64 word" | Call_UsersGet string

type_synonym effect = "goroutine list \<times> message option \<times> call list"

definition fetchuser :: "world \<Rightarrow> string \<Rightarrow> effect option" where
  "fetchuser w name =
     (case UsersGet w name of
        Inl err \<Rightarrow> Some ([], Some (Err err), [Call_UsersGet name])
      | Inr user \<Rightarrow> Some ([], Some (Data user), [Call_UsersGet name]))"

definition finduseremail :: "world \<Rightarrow> string \<Rightarrow> effect option" where
  "finduseremail w email =
     (case ParseAddress w email of
        Inl err \<Rightarrow> Some ([], Some (Err err), [])
      | Inr e \<Rightarrow> Some ([], Some (Data \<lparr>Login = None, Name = None, Email = Some (Addr e)\<rparr>), []))"

text \<open>The loop of \<open>expandteam\<close> over the teams: \<open>teamid\<close> starts as 0, the first equal slug ends it.\<close>

fun teamid_loop :: "string \<Rightarrow> Team list \<Rightarrow> 64 word" where
  "teamid_loop teamname [] = 0"
| "teamid_loop teamname (team # teams) =
     (if teamname = Slug team then ID team else teamid_loop teamname teams)"

definition expandteam :: "world \<Rightarrow> string \<Rightarrow> effect option" where
  "expandteam w fullteam =
     (let split = Index fullteam ''/'' in
      case slice fullteam 1 split of
        None \<Rightarrow> None
      | Some org \<Rightarrow>
          (case ListTeams w org of
             Inl err \<Rightarrow> Some ([], Some (Err err), [Call_ListTeams org])
           | Inr teams \<Rightarrow>
               (case slice_from fullteam (split + 1) of
                  None \<Rightarrow> None
                | Some teamname \<Rightarrow>
                    (let teamid = teamid_loop teamname teams in
                     if teamid = 0
                     then Some ([], Some (Err (errors_New (''Failed to find team matching '' @ teamname))),
                                [Call_ListTeams org])
                     else (case ListTeamMembers w teamid of
                             Inl err \<Rightarrow>
                               Some ([], Some (Err err), [Call_ListTeams org, Call_ListTeamMembers teamid])
                           | Inr users \<Rightarrow>
                               Some (map Go_fetchuser users, None,
                                     [Call_ListTeams org, Call_ListTeamMembers teamid]))))))"

text \<open>
  The format string of the default case has no verb, so \<open>fmt.Sprintf\<close> appends its
  argument as \<open>%!(EXTRA string=...)\<close>.
\<close>

definition expandowners :: "world \<Rightarrow> string \<Rightarrow> effect option" where
  "expandowners w ownertext =
     (if HasPrefix ownertext ''@'' \<and> Contains ownertext ''/''
      then Some ([Go_expandteam ownertext], None, [])
      else if HasPrefix ownertext ''@''
      then (case slice_from ownertext 1 of
              None \<Rightarrow> None
            | Some name \<Rightarrow> Some ([Go_fetchuser name], None, []))
      else if Contains ownertext ''@''
      then Some ([Go_finduseremail ownertext], None, [])
      else Some ([], Some (Err (errors_New
             (''Do not understand user specification %!(EXTRA string='' @ ownertext @ '')''))), []))"

fun run :: "world \<Rightarrow> goroutine \<Rightarrow> effect option" where
  "run w (Go_expandowners ownertext) = expandowners w ownertext"
| "run w (Go_expandteam fullteam) = expandteam w fullteam"
| "run w (Go_fetchuser name) = fetchuser w name"
| "run w (Go_finduseremail email) = finduseremail w email"

section \<open>Fan-out and fan-in: the second half of \<open>Match\<close>\<close>

text \<open>
  \<open>Match\<close> starts one \<open>expandowners\<close> per owner, a goroutine that closes both channels
  once the wait group is at zero, and then loops on a \<open>select\<close> over \<open>ctx.Done()\<close>,
  \<open>ch.err\<close> and \<open>ch.data\<close>. Which goroutine gets to send next, and when the \<open>select\<close>
  takes the \<open>ctx.Done()\<close> case, is not decided by the program: it is the schedule, a list
  of choices. The channels are unbuffered, so a send and the loop's receiving it are one
  event: \<open>Run i\<close> lets one live goroutine (the one at index \<open>i\<close>, modulo the number of
  live ones) run to its end, with what it sends appended by the loop; \<open>CtxDone\<close> is the
  \<open>select\<close> taking \<open>ctx.Done()\<close>. The pool holds the live goroutines, those the wait
  group counts; a goroutine adds the ones it starts before it is done itself. When the
  pool is empty both channels get closed and the loop returns \<open>users, error_slice\<close>; the
  naked \<open>return\<close> of the \<open>ctx.Done()\<close> case returns the same two named results as they
  stand.

  The third component of \<open>Returned\<close> is not a result of \<open>Match\<close>: it records the remote
  calls made by the goroutines that ran. \<open>Starved\<close> says that the schedule ended with
  goroutines still live and the context not done.
\<close>

datatype choice = CtxDone | Run nat

datatype outcome = Returned "User list" "error list" "call list" | Panicked | Starved

fun collect :: "world \<Rightarrow> choice list \<Rightarrow> goroutine list \<Rightarrow> User list \<Rightarrow> error list \<Rightarrow> call list \<Rightarrow> outcome" where
  "collect w sched [] users error_slice trace = Returned users error_slice trace"
| "collect w [] (g # pool) users error_slice trace = Starved"
| "collect w (CtxDone # sched) (g # pool) users error_slice trace = Returned users error_slice trace"
| "collect w (Run i # sched) (g # pool) users error_slice trace =
     (let live = g # pool; k = i mod length live in
      case run w (live ! k) of
        None \<Rightarrow> Panicked
      | Some (spawned, sent, calls) \<Rightarrow>
          (let pool' = take k live @ drop (Suc k) live @ spawned in
           case sent of
             None \<Rightarrow> collect w sched pool' users error_slice (trace @ calls)
           | Some (Data user) \<Rightarrow> collect w sched pool' (users @ [user]) error_slice (trace @ calls)
           | Some (Err err) \<Rightarrow> collect w sched pool' users (error_slice @ [err]) (trace @ calls)))"

definition Match :: "world \<Rightarrow> codeOwners \<Rightarrow> choice list \<Rightarrow> string \<Rightarrow> outcome" where
  "Match w co sched file =
     (case Match_select w (patterns co) file None of
        None \<Rightarrow> Returned [] [errors_New ''Failed to find match''] []
      | Some owners' \<Rightarrow> collect w sched (map Go_expandowners owners') [] [] [])"


section \<open>What a goroutine leads to\<close>

text \<open>
  \<open>expandteam\<close> is only ever started by the first case of \<open>expandowners\<close>, so its argument
  starts with \<open>@\<close> and contains a \<open>/\<close>; a pool of such goroutines is what \<open>Match\<close> works on.
\<close>

fun well_formed :: "goroutine \<Rightarrow> bool" where
  "well_formed (Go_expandteam fullteam) = (HasPrefix fullteam ''@'' \<and> Contains fullteam ''/'')"
| "well_formed g = True"

fun rank :: "goroutine \<Rightarrow> nat" where
  "rank (Go_expandowners ownertext) = 2"
| "rank (Go_expandteam fullteam) = 1"
| "rank (Go_fetchuser name) = 0"
| "rank (Go_finduseremail email) = 0"

text \<open>
  \<open>family w g\<close> lists \<open>g\<close> and every goroutine started because of it (the wait group
  counts each of them once); \<open>messages w g\<close> is what they send between them.
\<close>

function family :: "world \<Rightarrow> goroutine \<Rightarrow> goroutine list" where
  "family w g =
     g # (case run w g of None \<Rightarrow> [] | Some (spawned, sent, calls) \<Rightarrow> concat (map (family w) spawned))"
  by pat_completeness auto
termination
proof (relation "measure (\<lambda>(w, g). rank g)")
  show "wf (measure (\<lambda>(w, g). rank g))"
    by simp
next
  fix w :: world and g x2 spawned y sent calls g'
  assume "run w g = Some x2" and "(spawned, y) = x2" and "(sent, calls) = y" and "g' \<in> set spawned"
  then have "run w g = Some (spawned, sent, calls)" and "g' \<in> set spawned"
    by auto
  then have "rank g' < rank g"
    by (cases g)
       (auto simp: expandowners_def expandteam_def fetchuser_def finduseremail_def Let_def
             split: if_splits option.splits sum.splits)
  then show "((w, g'), (w, g)) \<in> measure (\<lambda>(w, g). rank g)"
    by simp
qed

declare family.simps [simp del]

definition sent_by :: "world \<Rightarrow> goroutine \<Rightarrow> message list" where
  "sent_by w g = (case run w g of Some (spawned, Some m, calls) \<Rightarrow> [m] | _ \<Rightarrow> [])"

definition messages :: "world \<Rightarrow> goroutine \<Rightarrow> message list" where
  "messages w g = concat (map (sent_by w) (family w g))"

section \<open>Instances of the parameters\<close>

text \<open>
  To run the model on concrete inputs the parameters need values. \<open>simple_glob\<close> knows
  three kinds of pattern: \<open>**\<close> matches every name, \<open>dir/**\<close> matches the names that start
  with \<open>dir/\<close>, and a pattern with an unclosed \<open>[\<close> is malformed; any other pattern
  matches the name equal to it. \<open>simple_parse\<close> accepts a bare address with an \<open>@\<close>
  inside it, and the form \<open>name<address>\<close>, of which it returns the two parts. The remote service is the one of the repository's tests:
  organisation \<open>example\<close> with team 72, whose members are \<open>juan\<close> and \<open>joe\<close>; it also
  lists a team with id 0.
\<close>

definition simple_glob :: "string \<Rightarrow> string \<Rightarrow> bool \<times> error option" where
  "simple_glob pattern name =
     (if Contains pattern ''['' \<and> \<not> Contains pattern '']''
      then (False, Some (lib_error ''syntax error in pattern''))
      else if pattern = ''**'' then (True, None)
      else if 3 \<le> length pattern \<and> drop (length pattern - 3) pattern = ''/**''
      then (HasPrefix name (take (length pattern - 2) pattern), None)
      else (pattern = name, None))"

definition simple_parse :: "string \<Rightarrow> error + Address" where
  "simple_parse s =
     (if Contains s ''<'' \<and> s \<noteq> [] \<and> last s = CHR ''>''
      then (let addr = butlast (drop 1 (dropWhile (\<lambda>c. c \<noteq> CHR ''<'') s)) in
            if Contains addr ''@'' \<and> \<not> HasPrefix addr ''@'' \<and> \<not> Contains addr ''<'' \<and>
               last addr \<noteq> CHR ''@''
            then Inr \<lparr>DisplayName = takeWhile (\<lambda>c. c \<noteq> CHR ''<'') s, Addr = addr\<rparr>
            else Inl (lib_error ''mail: missing '@' or angle-addr''))
      else if Contains s ''@'' \<and> \<not> HasPrefix s ''@'' \<and> \<not> Contains s ''<'' \<and> last s \<noteq> CHR ''@''
      then Inr \<lparr>DisplayName = [], Addr = s\<rparr>
      else Inl (lib_error ''mail: missing '@' or angle-addr''))"

definition test_world :: "string \<Rightarrow> world" where
  "test_world content =
     \<lparr>glob = simple_glob,
      ParseAddress = simple_parse,
      GetContents = (\<lambda>own rep file.
         if file = ''CODEOWNERS'' then Inr (Some (content, None)) else Inl (lib_error ''404 Not Found'')),
      ListTeams = (\<lambda>org.
         if org = ''example''
         then Inr [\<lparr>Slug = ''other'', ID = 55\<rparr>, \<lparr>Slug = ''team'', ID = 72\<rparr>, \<lparr>Slug = ''zero'', ID = 0\<rparr>]
         else Inl (lib_error ''404 Not Found'')),
      ListTeamMembers = (\<lambda>teamid.
         if teamid = 72 then Inr [''juan'', ''joe''] else Inl (lib_error ''404 Not Found'')),
      UsersGet = (\<lambda>name.
         if name = ''juan'' then Inr \<lparr>Login = Some ''juan'', Name = Some ''Juan'', Email = None\<rparr>
         else if name = ''joe'' then Inr \<lparr>Login = Some ''joe'', Name = Some ''Joe'', Email = None\<rparr>
         else Inl (lib_error ''404 Not Found''))\<rparr>"

section \<open>Facts about the two loops\<close>

lemma Match_select_Cons:
  "Match_select w (p # pats) file sel =
     Match_select w pats file (if fst (glob w (path p) file) then owners p else sel)"
  by (simp split: prod.splits)

lemma Match_select_unmatched:
  "\<forall>p\<in>set pats. \<not> fst (glob w (path p) file) \<Longrightarrow> Match_select w pats file sel = sel"
  by (induction pats arbitrary: sel) (auto split: prod.splits)

lemma Match_select_append:
  "Match_select w (pats1 @ pats2) file sel = Match_select w pats2 file (Match_select w pats1 file sel)"
  by (induction pats1 arbitrary: sel) (auto split: prod.splits)

lemma Match_select_fst:
  "Match_select (w\<lparr>glob := \<lambda>p n. (fst (glob w p n), None)\<rparr>) pats file sel = Match_select w pats file sel"
  by (induction pats arbitrary: sel) (auto split: prod.splits)

lemma run_glob_update: "run (w\<lparr>glob := g\<rparr>) t = run w t"
  by (cases t)
     (simp_all add: expandowners_def expandteam_def fetchuser_def finduseremail_def Let_def
        cong: if_cong option.case_cong sum.case_cong)

lemma collect_glob_update:
  "collect (w\<lparr>glob := g\<rparr>) sched pool users error_slice trace = collect w sched pool users error_slice trace"
  by (induction w sched pool users error_slice trace rule: collect.induct)
     (simp_all add: run_glob_update Let_def split: option.splits message.splits prod.splits)

lemma Get_loop_acc: "Get_loop lines pats = pats @ Get_loop lines []"
proof (induction lines arbitrary: pats)
  case Nil
  show ?case by simp
next
  case (Cons line lines)
  show ?case
    using Cons.IH [of "pats @ [\<lparr>path = (if hd (Fields line) = ''*'' then ''**'' else hd (Fields line)),
                       owners = Some (tl (Fields line))\<rparr>]"]
      Cons.IH [of "[\<lparr>path = (if hd (Fields line) = ''*'' then ''**'' else hd (Fields line)),
                       owners = Some (tl (Fields line))\<rparr>]"] Cons.IH [of pats]
    by (simp add: Let_def)
qed

lemma Get_loop_append: "Get_loop (lines1 @ lines2) pats = Get_loop lines2 (Get_loop lines1 pats)"
  by (induction lines1 arbitrary: pats) (simp_all add: Let_def)

lemma Get_loop_map:
  "Get_loop lines pats =
     pats @ map (\<lambda>words. \<lparr>path = (if hd words = ''*'' then ''**'' else hd words), owners = Some (tl words)\<rparr>)
              (filter (\<lambda>words. 1 < length words) (map Fields lines))"
  by (induction lines arbitrary: pats) (simp_all add: Let_def)

section \<open>Facts about the string functions\<close>

lemma HasPrefix_single: "HasPrefix s [c] \<longleftrightarrow> (\<exists>rest. s = c # rest)"
  by (cases s) (auto simp: HasPrefix_def)

lemma Index_single:
  "Index s [c] = (if c \<in> set s then int (length (takeWhile (\<lambda>x. x \<noteq> c) s)) else - 1)"
  by (induction s) (auto simp: HasPrefix_def Let_def)

lemma Contains_single: "Contains s [c] \<longleftrightarrow> c \<in> set s"
  by (simp add: Contains_def Index_single)

lemma slice_from_Cons: "slice_from (c # s) 1 = Some s"
  by (simp add: slice_from_def slice_def)

lemma team_token_parts:
  assumes "c \<notin> set org" and "a \<noteq> c"
  shows "Index (a # org @ c # slug) [c] = 1 + int (length org)"
    and "slice (a # org @ c # slug) 1 (Index (a # org @ c # slug) [c]) = Some org"
    and "slice_from (a # org @ c # slug) (Index (a # org @ c # slug) [c] + 1) = Some slug"
proof -
  have tw: "takeWhile (\<lambda>x. x \<noteq> c) (a # org @ c # slug) = a # org"
    using assms by (auto simp: takeWhile_tail)
  show idx: "Index (a # org @ c # slug) [c] = 1 + int (length org)"
    by (simp only: Index_single tw) simp
  show "slice (a # org @ c # slug) 1 (Index (a # org @ c # slug) [c]) = Some org"
    by (simp add: idx slice_def del: Index.simps)
  show "slice_from (a # org @ c # slug) (Index (a # org @ c # slug) [c] + 1) = Some slug"
    by (simp add: idx slice_from_def slice_def nat_add_distrib del: Index.simps)
qed

lemma team_token_split:
  assumes "HasPrefix tok [a]" and "Contains tok [c]" and "a \<noteq> c"
  shows "\<exists>org slug. tok = a # org @ c # slug \<and> c \<notin> set org"
proof -
  from assms(1) obtain rest where tok: "tok = a # rest"
    by (auto simp: HasPrefix_single)
  with assms(2,3) have "c \<in> set rest"
    by (simp add: Contains_single)
  then obtain org slug where "rest = org @ c # slug" and "c \<notin> set org"
    by (meson split_list_first)
  with tok show ?thesis
    by auto
qed

section \<open>Facts about the goroutines and the fan-in\<close>

lemma run_well_formed:
  assumes "well_formed g"
  shows "\<exists>spawned sent calls. run w g = Some (spawned, sent, calls) \<and> list_all well_formed spawned"
proof (cases g)
  case (Go_expandowners tok)
  then show ?thesis
    by (auto simp: expandowners_def HasPrefix_single slice_from_Cons)
next
  case (Go_expandteam tok)
  with assms obtain org slug where tok: "tok = CHR ''@'' # org @ CHR ''/'' # slug" and org: "CHR ''/'' \<notin> set org"
    using team_token_split [of tok "CHR ''@''" "CHR ''/''"] by auto
  have parts: "slice tok 1 (Index tok ''/'') = Some org" "slice_from tok (Index tok ''/'' + 1) = Some slug"
    using org team_token_parts [of "CHR ''/''" org "CHR ''@''" slug]
    by (simp_all add: tok del: Index.simps)
  show ?thesis
    by (simp add: Go_expandteam expandteam_def parts Let_def list_all_iff del: Index.simps
        split: sum.splits)
next
  case (Go_fetchuser name)
  then show ?thesis
    by (simp add: fetchuser_def split: sum.splits)
next
  case (Go_finduseremail email)
  then show ?thesis
    by (simp add: finduseremail_def split: sum.splits)
qed

lemma collect_Run:
  assumes "pool \<noteq> []" and "run w (pool ! (i mod length pool)) = Some (spawned, sent, calls)"
  shows "collect w (Run i # sched) pool users error_slice trace =
     collect w sched
       (take (i mod length pool) pool @ drop (Suc (i mod length pool)) pool @ spawned)
       (users @ (case sent of Some (Data user) \<Rightarrow> [user] | _ \<Rightarrow> []))
       (error_slice @ (case sent of Some (Err err) \<Rightarrow> [err] | _ \<Rightarrow> []))
       (trace @ calls)"
proof -
  from assms(1) obtain g rest where pool: "pool = g # rest"
    by (cases pool) auto
  show ?thesis
    using assms(2) unfolding pool
    by (simp add: Let_def split: option.splits message.splits)
qed

lemma collect_Run_panic:
  assumes "pool \<noteq> []" and "run w (pool ! (i mod length pool)) = None"
  shows "collect w (Run i # sched) pool users error_slice trace = Panicked"
proof -
  from assms(1) obtain g rest where pool: "pool = g # rest"
    by (cases pool) auto
  show ?thesis
    using assms(2) unfolding pool by (simp add: Let_def)
qed

lemma pool_well_formed_step:
  assumes "list_all well_formed pool" and "k < length pool" and "run w (pool ! k) = Some (spawned, sent, calls)"
  shows "list_all well_formed (take k pool @ drop (Suc k) pool @ spawned)"
proof -
  have "well_formed (pool ! k)"
    using assms(1,2) by (simp add: list_all_length)
  then have "list_all well_formed spawned"
    using run_well_formed [of "pool ! k" w] assms(3) by auto
  moreover have "list_all well_formed (take k pool)" "list_all well_formed (drop (Suc k) pool)"
    using assms(1) by (auto simp: list_all_iff dest: in_set_takeD in_set_dropD)
  ultimately show ?thesis
    by simp
qed

lemma collect_never_panics:
  "list_all well_formed pool \<Longrightarrow> collect w sched pool users error_slice trace \<noteq> Panicked"
proof (induction sched arbitrary: pool users error_slice trace)
  case Nil
  then show ?case by (cases pool) simp_all
next
  case (Cons c sched)
  show ?case
  proof (cases pool)
    case Nil
    then show ?thesis by simp
  next
    case (Cons g rest)
    then have ne: "pool \<noteq> []" by simp
    show ?thesis
    proof (cases c)
      case CtxDone
      then show ?thesis using Cons by simp
    next
      case (Run i)
      let ?k = "i mod length pool"
      have k: "?k < length pool" using ne by simp
      then have "well_formed (pool ! ?k)"
        using Cons.prems by (simp add: list_all_length)
      then obtain spawned sent calls where r: "run w (pool ! ?k) = Some (spawned, sent, calls)"
        using run_well_formed by blast
      show ?thesis
        unfolding Run collect_Run [OF ne r]
        by (rule Cons.IH) (rule pool_well_formed_step [OF Cons.prems k r])
    qed
  qed
qed

lemma family_simps: "family w g =
     g # (case run w g of None \<Rightarrow> [] | Some (spawned, sent, calls) \<Rightarrow> concat (map (family w) spawned))"
  by (rule family.simps)

lemma concat_map_concat:
  "concat (map f (concat xss)) = concat (map (\<lambda>xs. concat (map f xs)) xss)"
  by (induction xss) simp_all

lemma messages_unfold:
  assumes "run w g = Some (spawned, sent, calls)"
  shows "messages w g = sent_by w g @ concat (map (messages w) spawned)"
proof -
  have "family w g = g # concat (map (family w) spawned)"
    using assms by (subst family_simps) simp
  then have "messages w g =
      sent_by w g @ concat (map (\<lambda>x. concat (map (sent_by w) (family w x))) spawned)"
    by (simp add: messages_def concat_map_concat comp_def)
  also have "(\<lambda>x. concat (map (sent_by w) (family w x))) = messages w"
    by (rule ext) (simp add: messages_def)
  finally show ?thesis .
qed

lemma sent_by_run:
  assumes "run w g = Some (spawned, sent, calls)"
  shows "sent_by w g = (case sent of None \<Rightarrow> [] | Some m \<Rightarrow> [m])"
  using assms by (simp add: sent_by_def split: option.splits)

lemma pool_messages_step:
  assumes "k < length pool" and "run w (pool ! k) = Some (spawned, sent, calls)"
  shows "mset (concat (map (messages w) pool)) =
     mset (case sent of None \<Rightarrow> [] | Some m \<Rightarrow> [m]) +
     mset (concat (map (messages w) (take k pool @ drop (Suc k) pool @ spawned)))"
proof -
  have "pool = take k pool @ pool ! k # drop (Suc k) pool"
    using assms(1) by (rule id_take_nth_drop)
  then have "mset (concat (map (messages w) pool)) =
      mset (concat (map (messages w) (take k pool @ pool ! k # drop (Suc k) pool)))"
    by simp
  also have "\<dots> = mset (messages w (pool ! k)) +
      mset (concat (map (messages w) (take k pool @ drop (Suc k) pool)))"
    by simp
  also have "messages w (pool ! k) =
      (case sent of None \<Rightarrow> [] | Some m \<Rightarrow> [m]) @ concat (map (messages w) spawned)"
    using messages_unfold [OF assms(2)] sent_by_run [OF assms(2)] by simp
  finally show ?thesis
    by simp
qed

lemma pool_family_step:
  assumes "k < length pool" and "run w (pool ! k) = Some (spawned, sent, calls)"
  shows "length (concat (map (family w) pool)) =
     Suc (length (concat (map (family w) (take k pool @ drop (Suc k) pool @ spawned))))"
proof -
  have fam: "family w (pool ! k) = pool ! k # concat (map (family w) spawned)"
    using assms(2) by (subst family_simps) simp
  have "pool = take k pool @ pool ! k # drop (Suc k) pool"
    using assms(1) by (rule id_take_nth_drop)
  then have "length (concat (map (family w) pool)) =
      length (concat (map (family w) (take k pool @ pool ! k # drop (Suc k) pool)))"
    by simp
  also have "\<dots> = Suc (length (concat (map (family w) (take k pool @ drop (Suc k) pool @ spawned))))"
    by (simp add: fam)
  finally show ?thesis .
qed

lemma collect_all_messages:
  "CtxDone \<notin> set sched \<Longrightarrow>
   collect w sched pool users error_slice trace = Returned users' errors' trace' \<Longrightarrow>
   mset (map Data users' @ map Err errors') =
     mset (map Data users @ map Err error_slice) + mset (concat (map (messages w) pool))"
proof (induction sched arbitrary: pool users error_slice trace)
  case Nil
  then show ?case by (cases pool) simp_all
next
  case (Cons c sched)
  show ?case
  proof (cases pool)
    case Nil
    with Cons.prems show ?thesis by simp
  next
    case (Cons g rest)
    then have ne: "pool \<noteq> []" by simp
    from Cons.prems(1) obtain i where c: "c = Run i"
      by (cases c) auto
    let ?k = "i mod length pool"
    have k: "?k < length pool" using ne by simp
    show ?thesis
    proof (cases "run w (pool ! ?k)")
      case None
      with Cons.prems(2) show ?thesis
        by (simp add: c collect_Run_panic [OF ne])
    next
      case (Some eff)
      then obtain spawned sent calls where r: "run w (pool ! ?k) = Some (spawned, sent, calls)"
        by (cases eff) auto
      from Cons.prems have "mset (map Data users' @ map Err errors') =
          mset (map Data (users @ (case sent of Some (Data user) \<Rightarrow> [user] | _ \<Rightarrow> [])) @
                map Err (error_slice @ (case sent of Some (Err err) \<Rightarrow> [err] | _ \<Rightarrow> []))) +
          mset (concat (map (messages w) (take ?k pool @ drop (Suc ?k) pool @ spawned)))"
        by (intro Cons.IH) (simp_all add: c collect_Run [OF ne r])
      then show ?thesis
        by (simp add: pool_messages_step [OF k r] split: option.splits message.splits)
    qed
  qed
qed

lemma collect_returns:
  "CtxDone \<notin> set sched \<Longrightarrow> list_all well_formed pool \<Longrightarrow>
   length (concat (map (family w) pool)) \<le> length sched \<Longrightarrow>
   \<exists>users' errors' trace'. collect w sched pool users error_slice trace = Returned users' errors' trace'"
proof (induction sched arbitrary: pool users error_slice trace)
  case Nil
  then have "pool = []"
    by (cases pool) (simp_all, subst (asm) family_simps, simp)
  then show ?case by simp
next
  case (Cons c sched)
  show ?case
  proof (cases pool)
    case Nil
    then show ?thesis by simp
  next
    case (Cons g rest)
    then have ne: "pool \<noteq> []" by simp
    from Cons.prems(1) obtain i where c: "c = Run i"
      by (cases c) auto
    let ?k = "i mod length pool"
    have k: "?k < length pool" using ne by simp
    then have "well_formed (pool ! ?k)"
      using Cons.prems(2) by (simp add: list_all_length)
    then obtain spawned sent calls where r: "run w (pool ! ?k) = Some (spawned, sent, calls)"
      using run_well_formed by blast
    have "length (concat (map (family w) (take ?k pool @ drop (Suc ?k) pool @ spawned))) \<le> length sched"
      using Cons.prems(3) pool_family_step [OF k r] by simp
    with Cons.prems(1) pool_well_formed_step [OF Cons.prems(2) k r]
    show ?thesis
      unfolding c collect_Run [OF ne r] by (intro Cons.IH) simp_all
  qed
qed

lemma teamid_loop_find:
  "teamid_loop teamname teams =
     (case find (\<lambda>team. teamname = Slug team) teams of None \<Rightarrow> 0 | Some team \<Rightarrow> ID team)"
  by (induction teams) simp_all

lemma messages_fetchuser:
  "messages w (Go_fetchuser name) =
     [case UsersGet w name of Inl err \<Rightarrow> Err err | Inr user \<Rightarrow> Data user]"
proof -
  obtain m where r: "run w (Go_fetchuser name) = Some ([], Some m, [Call_UsersGet name])"
    and m: "m = (case UsersGet w name of Inl err \<Rightarrow> Err err | Inr user \<Rightarrow> Data user)"
    by (cases "UsersGet w name") (simp_all add: fetchuser_def)
  show ?thesis
    using messages_unfold [OF r] sent_by_run [OF r] m by simp
qed

lemma messages_finduseremail:
  "messages w (Go_finduseremail email) =
     [case ParseAddress w email of Inl err \<Rightarrow> Err err
      | Inr e \<Rightarrow> Data \<lparr>Login = None, Name = None, Email = Some (Addr e)\<rparr>]"
proof -
  obtain m where r: "run w (Go_finduseremail email) = Some ([], Some m, [])"
    and m: "m = (case ParseAddress w email of Inl err \<Rightarrow> Err err
      | Inr e \<Rightarrow> Data \<lparr>Login = None, Name = None, Email = Some (Addr e)\<rparr>)"
    by (cases "ParseAddress w email") (simp_all add: finduseremail_def)
  show ?thesis
    using messages_unfold [OF r] sent_by_run [OF r] m by simp
qed

lemma messages_invalid:
  assumes "\<not> HasPrefix tok ''@''" and "\<not> Contains tok ''@''"
  shows "messages w (Go_expandowners tok) =
     [Err (errors_New (''Do not understand user specification %!(EXTRA string='' @ tok @ '')''))]"
proof -
  have r: "run w (Go_expandowners tok) =
      Some ([], Some (Err (errors_New
        (''Do not understand user specification %!(EXTRA string='' @ tok @ '')''))), [])"
    using assms by (simp add: expandowners_def)
  show ?thesis
    using messages_unfold [OF r] sent_by_run [OF r] by simp
qed

lemma messages_email:
  assumes "\<not> HasPrefix tok ''@''" and "Contains tok ''@''"
  shows "messages w (Go_expandowners tok) =
     [case ParseAddress w tok of Inl err \<Rightarrow> Err err
      | Inr e \<Rightarrow> Data \<lparr>Login = None, Name = None, Email = Some (Addr e)\<rparr>]"
proof -
  have r: "run w (Go_expandowners tok) = Some ([Go_finduseremail tok], None, [])"
    using assms by (simp add: expandowners_def)
  show ?thesis
    using messages_unfold [OF r] sent_by_run [OF r] by (simp add: messages_finduseremail)
qed

lemma messages_handle:
  assumes "\<not> Contains login ''/''"
  shows "messages w (Go_expandowners (''@'' @ login)) =
     [case UsersGet w login of Inl err \<Rightarrow> Err err | Inr user \<Rightarrow> Data user]"
proof -
  have r: "run w (Go_expandowners (''@'' @ login)) = Some ([Go_fetchuser login], None, [])"
    using assms by (simp add: expandowners_def HasPrefix_def Contains_single slice_from_Cons)
  show ?thesis
    using messages_unfold [OF r] sent_by_run [OF r] by (simp add: messages_fetchuser)
qed

lemma expandowners_team:
  assumes "\<not> Contains org ''/''"
  shows "run w (Go_expandowners (''@'' @ org @ ''/'' @ slug)) =
     Some ([Go_expandteam (''@'' @ org @ ''/'' @ slug)], None, [])"
  by (simp add: expandowners_def HasPrefix_def Contains_single)

lemma expandteam_found:
  assumes "\<not> Contains org ''/''" and "ListTeams w org = Inr teams"
  shows "expandteam w (''@'' @ org @ ''/'' @ slug) =
     (case find (\<lambda>team. slug = Slug team) teams of
        None \<Rightarrow> Some ([], Some (Err (errors_New (''Failed to find team matching '' @ slug))),
                      [Call_ListTeams org])
      | Some team \<Rightarrow>
          if ID team = 0
          then Some ([], Some (Err (errors_New (''Failed to find team matching '' @ slug))),
                     [Call_ListTeams org])
          else (case ListTeamMembers w (ID team) of
                  Inl err \<Rightarrow> Some ([], Some (Err err), [Call_ListTeams org, Call_ListTeamMembers (ID team)])
                | Inr users \<Rightarrow> Some (map Go_fetchuser users, None,
                                     [Call_ListTeams org, Call_ListTeamMembers (ID team)])))"
proof -
  have org: "CHR ''/'' \<notin> set org"
    using assms(1) by (simp add: Contains_single)
  have parts:
    "slice (CHR ''@'' # org @ CHR ''/'' # slug) 1 (Index (CHR ''@'' # org @ CHR ''/'' # slug) ''/'') = Some org"
    "slice_from (CHR ''@'' # org @ CHR ''/'' # slug) (Index (CHR ''@'' # org @ CHR ''/'' # slug) ''/'' + 1) = Some slug"
    using team_token_parts [OF org, of "CHR ''@''" slug] by (simp_all del: Index.simps)
  show ?thesis
    by (cases "find (\<lambda>team. slug = Slug team) teams")
       (simp_all add: expandteam_def Let_def parts assms(2) teamid_loop_find del: Index.simps)
qed

lemma messages_fetchusers:
  "concat (map (messages w \<circ> Go_fetchuser) members) =
     map (\<lambda>name. case UsersGet w name of Inl err \<Rightarrow> Err err | Inr user \<Rightarrow> Data user) members"
  by (induction members) (simp_all add: messages_fetchuser)

lemma family_fetchusers:
  "concat (map (family w \<circ> Go_fetchuser) members) = map Go_fetchuser members"
proof (induction members)
  case Nil
  show ?case by simp
next
  case (Cons name members)
  have "family w (Go_fetchuser name) = [Go_fetchuser name]"
    by (subst family_simps) (simp add: fetchuser_def split: sum.splits)
  with Cons show ?case by simp
qed

lemma messages_team:
  assumes "\<not> Contains org ''/''" and "ListTeams w org = Inr teams"
  shows "messages w (Go_expandowners (''@'' @ org @ ''/'' @ slug)) =
     (case find (\<lambda>team. slug = Slug team) teams of
        None \<Rightarrow> [Err (errors_New (''Failed to find team matching '' @ slug))]
      | Some team \<Rightarrow>
          if ID team = 0 then [Err (errors_New (''Failed to find team matching '' @ slug))]
          else (case ListTeamMembers w (ID team) of
                  Inl err \<Rightarrow> [Err err]
                | Inr members \<Rightarrow>
                    map (\<lambda>name. case UsersGet w name of Inl err \<Rightarrow> Err err | Inr user \<Rightarrow> Data user)
                      members))"
proof -
  let ?tok = "''@'' @ org @ ''/'' @ slug"
  obtain spawned sent calls where r: "run w (Go_expandteam ?tok) = Some (spawned, sent, calls)"
    using expandteam_found [OF assms, of slug]
    by (auto split: option.splits if_splits sum.splits)
  have "messages w (Go_expandowners ?tok) = messages w (Go_expandteam ?tok)"
    using messages_unfold [OF expandowners_team [OF assms(1), of w slug]]
      sent_by_run [OF expandowners_team [OF assms(1), of w slug]] by simp
  also have "\<dots> = (case sent of None \<Rightarrow> [] | Some m \<Rightarrow> [m]) @ concat (map (messages w) spawned)"
    using messages_unfold [OF r] sent_by_run [OF r] by simp
  finally show ?thesis
    using r expandteam_found [OF assms, of slug]
    by (auto simp: messages_fetchusers split: option.splits if_splits sum.splits)
qed

lemma family_team:
  assumes "\<not> Contains org ''/''"
    and "expandteam w (''@'' @ org @ ''/'' @ slug) = Some (map Go_fetchuser members, sent, calls)"
  shows "length (family w (Go_expandowners (''@'' @ org @ ''/'' @ slug))) = length members + 2"
proof -
  let ?tok = "''@'' @ org @ ''/'' @ slug"
  have "family w (Go_expandowners ?tok) = Go_expandowners ?tok # family w (Go_expandteam ?tok)"
    using expandowners_team [OF assms(1), of w slug] by (subst family_simps) simp
  moreover have "family w (Go_expandteam ?tok) = Go_expandteam ?tok # map Go_fetchuser members"
    using assms(2) by (subst family_simps) (simp add: family_fetchusers)
  ultimately show ?thesis
    by simp
qed

lemma expandowners_pool_well_formed: "list_all well_formed (map Go_expandowners toks)"
  by (simp add: list_all_iff)





lemma expandteam_org_slug:
  assumes "\<not> Contains org ''/''"
  shows "expandteam w (''@'' @ org @ ''/'' @ slug) =
     (case ListTeams w org of
        Inl err \<Rightarrow> Some ([], Some (Err err), [Call_ListTeams org])
      | Inr teams \<Rightarrow>
          if teamid_loop slug teams = 0
          then Some ([], Some (Err (errors_New (''Failed to find team matching '' @ slug))),
                     [Call_ListTeams org])
          else (case ListTeamMembers w (teamid_loop slug teams) of
                  Inl err \<Rightarrow> Some ([], Some (Err err),
                                [Call_ListTeams org, Call_ListTeamMembers (teamid_loop slug teams)])
                | Inr users \<Rightarrow> Some (map Go_fetchuser users, None,
                                [Call_ListTeams org, Call_ListTeamMembers (teamid_loop slug teams)])))"
proof -
  have org: "CHR ''/'' \<notin> set org"
    using assms by (simp add: Contains_single)
  have parts:
    "slice (CHR ''@'' # org @ CHR ''/'' # slug) 1 (Index (CHR ''@'' # org @ CHR ''/'' # slug) ''/'') = Some org"
    "slice_from (CHR ''@'' # org @ CHR ''/'' # slug) (Index (CHR ''@'' # org @ CHR ''/'' # slug) ''/'' + 1) = Some slug"
    using team_token_parts [OF org, of "CHR ''@''" slug] by (simp_all del: Index.simps)
  show ?thesis
    by (cases "ListTeams w org") (simp_all add: expandteam_def Let_def parts del: Index.simps)
qed






section \<open>Rule selection\<close>

text \<open>
  C1. Last match wins: when a rule matches the path and no later rule does, the loop of
  \<open>Match\<close> leaves the owners of that rule selected, whatever matched before it and whatever
  was selected on entry; \<open>Match\<close> then expands exactly those owners. (A rule whose owners
  are a nil slice leaves nothing selected.)
\<close>

theorem last_match_wins:
  "fst (glob w (path r) file) \<Longrightarrow> \<forall>q\<in>set rest. \<not> fst (glob w (path q) file) \<Longrightarrow>
     Match_select w (before @ r # rest) file sel = owners r \<and>
     Match w \<lparr>owner = own, repo = rep, patterns = before @ r # rest\<rparr> sched file =
       (case owners r of
          None \<Rightarrow> Returned [] [errors_New ''Failed to find match''] []
        | Some toks \<Rightarrow> collect w sched (map Go_expandowners toks) [] [] [])"
  by (simp add: Match_def Match_select_append Match_select_unmatched Match_select_Cons
        del: Match_select.simps(2))

theorem last_match_wins_witness:
  "fst (glob (test_world []) (path \<lparr>path = ''test/**'', owners = Some [''@b'']\<rparr>) ''test/file.txt'') \<and>
   fst (glob (test_world []) ''**'' ''test/file.txt'') \<and>
   Match_select (test_world [])
     [\<lparr>path = ''**'', owners = Some [''@a'']\<rparr>, \<lparr>path = ''test/**'', owners = Some [''@b'']\<rparr>]
     ''test/file.txt'' None = Some [''@b'']"
  using last_match_wins [of "test_world []" "\<lparr>path = ''test/**'', owners = Some [''@b'']\<rparr>"
      "''test/file.txt''" "[]" "[\<lparr>path = ''**'', owners = Some [''@a'']\<rparr>]" None]
  by (simp add: test_world_def simple_glob_def HasPrefix_def Contains_def)


text \<open>
  C7. When no rule matches the path, \<open>Match\<close> returns no user and the single error
  \<open>Failed to find match\<close>, under every schedule and with no remote call made. It is the
  only error of a return that comes before any goroutine has run: if \<open>Match\<close> returns an
  error on the empty schedule, nothing was selected and that error is the only one.
\<close>

theorem no_match_short_circuit:
  "((\<forall>p\<in>set (patterns co). \<not> fst (glob w (path p) file)) \<longrightarrow>
      Match w co sched file = Returned [] [errors_New ''Failed to find match''] []) \<and>
   (Match w co [] file = Returned users (err # errs) trace \<longrightarrow>
      Match_select w (patterns co) file None = None \<and> users = [] \<and>
      err = errors_New ''Failed to find match'' \<and> errs = [] \<and> trace = [])"
proof (intro conjI impI)
  assume "\<forall>p\<in>set (patterns co). \<not> fst (glob w (path p) file)"
  then show "Match w co sched file = Returned [] [errors_New ''Failed to find match''] []"
    by (simp add: Match_def Match_select_unmatched)
next
  assume ret: "Match w co [] file = Returned users (err # errs) trace"
  have none: "Match_select w (patterns co) file None = None"
  proof (cases "Match_select w (patterns co) file None")
    case None
    then show ?thesis .
  next
    case (Some toks)
    with ret show ?thesis
      by (cases toks) (simp_all add: Match_def)
  qed
  with ret show "Match_select w (patterns co) file None = None"
    and "users = []" and "err = errors_New ''Failed to find match''" and "errs = []" and "trace = []"
    by (simp_all add: Match_def)
qed

theorem no_match_short_circuit_witness:
  "\<not> fst (glob (test_world []) ''docs/**'' ''src/x.txt'') \<and>
   Match (test_world [])
     \<lparr>owner = ''example'', repo = ''repo'', patterns = [\<lparr>path = ''docs/**'', owners = Some [''@a'']\<rparr>]\<rparr>
     [Run 0, Run 0] ''src/x.txt'' = Returned [] [errors_New ''Failed to find match''] [] \<and>
   Match (test_world [])
     \<lparr>owner = ''example'', repo = ''repo'', patterns = [\<lparr>path = ''docs/**'', owners = Some [''@a'']\<rparr>]\<rparr>
     [] ''src/x.txt'' = Returned [] [errors_New ''Failed to find match''] [] \<and>
   Match_select (test_world []) [\<lparr>path = ''docs/**'', owners = Some [''@a'']\<rparr>] ''src/x.txt'' None = None"
  using no_match_short_circuit [of
      "\<lparr>owner = ''example'', repo = ''repo'', patterns = [\<lparr>path = ''docs/**'', owners = Some [''@a'']\<rparr>]\<rparr>"
      "test_world []" "''src/x.txt''" "[Run 0, Run 0]" "[]" "errors_New ''Failed to find match''" "[]" "[]"]
  by (simp add: Match_def test_world_def simple_glob_def HasPrefix_def Contains_def)

text \<open>
  C10. The error of the glob matcher never reaches the caller: \<open>Match\<close> gives the same
  result when the matcher's errors are erased. A rule for which the matcher reports an
  error and no match is passed over, so a manifest with only such rules ends in
  \<open>Failed to find match\<close>.
\<close>

theorem pattern_errors_dropped:
  "Match (w\<lparr>glob := \<lambda>p n. (fst (glob w p n), None)\<rparr>) co sched file = Match w co sched file \<and>
   ((\<forall>p\<in>set (patterns co). \<exists>e. glob w (path p) file = (False, Some e)) \<longrightarrow>
      Match w co sched file = Returned [] [errors_New ''Failed to find match''] [])"
proof (intro conjI impI)
  show "Match (w\<lparr>glob := \<lambda>p n. (fst (glob w p n), None)\<rparr>) co sched file = Match w co sched file"
    by (simp add: Match_def Match_select_fst collect_glob_update cong: option.case_cong)
next
  assume "\<forall>p\<in>set (patterns co). \<exists>e. glob w (path p) file = (False, Some e)"
  then have "\<forall>p\<in>set (patterns co). \<not> fst (glob w (path p) file)"
    by auto
  then show "Match w co sched file = Returned [] [errors_New ''Failed to find match''] []"
    by (simp add: Match_def Match_select_unmatched)
qed

theorem pattern_errors_dropped_witness:
  "glob (test_world []) ''[a'' ''a'' = (False, Some (lib_error ''syntax error in pattern'')) \<and>
   glob (test_world []) ''src/[b-'' ''a'' = (False, Some (lib_error ''syntax error in pattern'')) \<and>
   Match (test_world [])
     \<lparr>owner = ''example'', repo = ''repo'',
      patterns = [\<lparr>path = ''[a'', owners = Some [''@juan'']\<rparr>, \<lparr>path = ''src/[b-'', owners = Some [''@joe'']\<rparr>]\<rparr>
     [Run 0, Run 0] ''a'' = Returned [] [errors_New ''Failed to find match''] []"
  using pattern_errors_dropped [of "test_world []"
      "\<lparr>owner = ''example'', repo = ''repo'',
        patterns = [\<lparr>path = ''[a'', owners = Some [''@juan'']\<rparr>, \<lparr>path = ''src/[b-'', owners = Some [''@joe'']\<rparr>]\<rparr>"
      "[Run 0, Run 0]" "''a''"]
  by (simp add: test_world_def simple_glob_def HasPrefix_def Contains_def)

section \<open>Loading the rules\<close>

text \<open>
  C8. A line whose first field is the lone \<open>*\<close> (and that has an owner) is stored with the
  pattern \<open>**\<close>; any other first field is stored as it is, in the position of the line.
  Where the matcher accepts \<open>**\<close> for a path, the stored rule of such a line is selected
  for that path.
\<close>

theorem root_wildcard_normalized:
  "Fields line = word # tok # toks \<Longrightarrow>
     Get_loop (lines1 @ line # lines2) [] =
       Get_loop lines1 [] @
       \<lparr>path = (if word = ''*'' then ''**'' else word), owners = Some (tok # toks)\<rparr> # Get_loop lines2 [] \<and>
     (word = ''*'' \<longrightarrow> fst (glob w ''**'' file) \<longrightarrow>
        Match_select w (Get_loop [line] []) file None = Some (tok # toks))"
proof -
  assume f: "Fields line = word # tok # toks"
  let ?r = "\<lparr>path = (if word = ''*'' then ''**'' else word), owners = Some (tok # toks)\<rparr>"
  have "Get_loop (lines1 @ line # lines2) [] = Get_loop lines2 (Get_loop lines1 [] @ [?r])"
    using f by (simp add: Get_loop_append Let_def)
  also have "\<dots> = (Get_loop lines1 [] @ [?r]) @ Get_loop lines2 []"
    by (rule Get_loop_acc)
  finally have stored: "Get_loop (lines1 @ line # lines2) [] = Get_loop lines1 [] @ ?r # Get_loop lines2 []"
    by simp
  have "Match_select w (Get_loop [line] []) file None = Some (tok # toks)"
    if "word = ''*''" and "fst (glob w ''**'' file)"
    using f that by (simp add: Let_def Match_select_Cons del: Match_select.simps(2))
  with stored show ?thesis
    by blast
qed

theorem root_wildcard_normalized_witness:
  "Fields ''* @juan'' = [''*'', ''@juan''] \<and>
   fst (glob (test_world []) ''**'' ''dir/sub/file.txt'') \<and>
   Get_loop [''docs/* @joe'', ''* @juan''] [] =
     [\<lparr>path = ''docs/*'', owners = Some [''@joe'']\<rparr>, \<lparr>path = ''**'', owners = Some [''@juan'']\<rparr>] \<and>
   Match_select (test_world []) (Get_loop [''* @juan''] []) ''dir/sub/file.txt'' None = Some [''@juan'']"
  using root_wildcard_normalized [of "''* @juan''" "''*''" "''@juan''" "[]" "[''docs/* @joe'']" "[]"
      "test_world []" "''dir/sub/file.txt''"]
  by (simp add: Fields_def ascii_space_def test_world_def simple_glob_def Contains_def HasPrefix_def)

text \<open>
  C9, as amended. \<open>Get\<close> makes one rule of every line that has at least two fields, in
  line order: the first field is the pattern (the lone \<open>*\<close> rewritten), the others are
  the owners. Lines with fewer than two fields make no rule. Nothing recognises a comment.
\<close>

theorem manifest_lines:
  "fetch w own rep = Some (content, None) \<Longrightarrow>
     Get w own rep =
       Some (\<lparr>owner = own, repo = rep,
         patterns = map (\<lambda>words. \<lparr>path = (if hd words = ''*'' then ''**'' else hd words),
                                   owners = Some (tl words)\<rparr>)
                      (filter (\<lambda>words. 1 < length words) (map Fields (Split content (CHR 0x0A))))\<rparr>,
        None)"
  using Get_loop_map [of "Split content (CHR 0x0A)" "[]"] by (simp add: Get_def)

theorem manifest_lines_witness:
  "fetch (test_world (''# code owners'' @ [CHR 0x0A] @ ''lonely'' @ [CHR 0x0A, CHR 0x0A] @ ''* @juan joe@example.com''))
      ''example'' ''repo'' =
     Some (''# code owners'' @ [CHR 0x0A] @ ''lonely'' @ [CHR 0x0A, CHR 0x0A] @ ''* @juan joe@example.com'', None) \<and>
   Get (test_world (''# code owners'' @ [CHR 0x0A] @ ''lonely'' @ [CHR 0x0A, CHR 0x0A] @ ''* @juan joe@example.com''))
      ''example'' ''repo'' =
     Some (\<lparr>owner = ''example'', repo = ''repo'',
       patterns = [\<lparr>path = ''#'', owners = Some [''code'', ''owners'']\<rparr>,
                   \<lparr>path = ''**'', owners = Some [''@juan'', ''joe@example.com'']\<rparr>]\<rparr>, None)"
  using manifest_lines [of "test_world (''# code owners'' @ [CHR 0x0A] @ ''lonely'' @ [CHR 0x0A, CHR 0x0A] @ ''* @juan joe@example.com'')"
      "''example''" "''repo''"
      "''# code owners'' @ [CHR 0x0A] @ ''lonely'' @ [CHR 0x0A, CHR 0x0A] @ ''* @juan joe@example.com''"]
  by (simp add: fetch_def test_world_def Fields_def ascii_space_def)

text \<open>
  C9 as stated fails: a comment line with two or more fields contributes a rule, whose
  pattern is \<open>#\<close>.
\<close>

theorem comment_line_counterexample:
  "Get (test_world (''# code owners'' @ [CHR 0x0A] @ ''* @juan'')) ''example'' ''repo'' =
     Some (\<lparr>owner = ''example'', repo = ''repo'',
       patterns = [\<lparr>path = ''#'', owners = Some [''code'', ''owners'']\<rparr>,
                   \<lparr>path = ''**'', owners = Some [''@juan'']\<rparr>]\<rparr>, None)"
  by (simp add: Get_def fetch_def test_world_def Fields_def ascii_space_def)


section \<open>Owner tokens\<close>

text \<open>
  C3. Every token falls under exactly one of the four cases of the switch of
  \<open>expandowners\<close>, tried in this order. A token that starts with \<open>@\<close> and contains \<open>/\<close>
  goes to \<open>expandteam\<close>, which cuts it into the organisation (between the \<open>@\<close> and the
  first \<open>/\<close>) and the slug (after that \<open>/\<close>): it asks for the teams of that organisation
  and looks among them for that slug. Any other token that starts with \<open>@\<close> goes to
  \<open>fetchuser\<close>, which looks up the text after the \<open>@\<close>. Any other token that contains
  \<open>@\<close> goes as it is to \<open>finduseremail\<close>, which parses it as an address. Every other
  token is answered with the error \<open>Do not understand user specification\<close>. No case
  panics.
\<close>

theorem classification:
  "(HasPrefix tok ''@'' \<and> Contains tok ''/'' \<longrightarrow>
      expandowners w tok = Some ([Go_expandteam tok], None, []) \<and>
      (\<exists>org slug. tok = ''@'' @ org @ ''/'' @ slug \<and> \<not> Contains org ''/'' \<and>
         slice tok 1 (Index tok ''/'') = Some org \<and>
         slice_from tok (Index tok ''/'' + 1) = Some slug \<and>
         expandteam w tok =
           (case ListTeams w org of
              Inl err \<Rightarrow> Some ([], Some (Err err), [Call_ListTeams org])
            | Inr teams \<Rightarrow>
                if teamid_loop slug teams = 0
                then Some ([], Some (Err (errors_New (''Failed to find team matching '' @ slug))),
                           [Call_ListTeams org])
                else (case ListTeamMembers w (teamid_loop slug teams) of
                        Inl err \<Rightarrow> Some ([], Some (Err err),
                                      [Call_ListTeams org, Call_ListTeamMembers (teamid_loop slug teams)])
                      | Inr users \<Rightarrow> Some (map Go_fetchuser users, None,
                                      [Call_ListTeams org, Call_ListTeamMembers (teamid_loop slug teams)]))))) \<and>
   (HasPrefix tok ''@'' \<and> \<not> Contains tok ''/'' \<longrightarrow>
      (\<exists>login. tok = ''@'' @ login \<and> expandowners w tok = Some ([Go_fetchuser login], None, []) \<and>
         run w (Go_fetchuser login) =
           Some ([], Some (case UsersGet w login of Inl err \<Rightarrow> Err err | Inr user \<Rightarrow> Data user),
                 [Call_UsersGet login]))) \<and>
   (\<not> HasPrefix tok ''@'' \<and> Contains tok ''@'' \<longrightarrow>
      expandowners w tok = Some ([Go_finduseremail tok], None, []) \<and>
      run w (Go_finduseremail tok) =
        Some ([], Some (case ParseAddress w tok of Inl err \<Rightarrow> Err err
                        | Inr e \<Rightarrow> Data \<lparr>Login = None, Name = None, Email = Some (Addr e)\<rparr>), [])) \<and>
   (\<not> HasPrefix tok ''@'' \<and> \<not> Contains tok ''@'' \<longrightarrow>
      expandowners w tok =
        Some ([], Some (Err (errors_New
          (''Do not understand user specification %!(EXTRA string='' @ tok @ '')''))), []))"
proof (intro conjI impI)
  assume team: "HasPrefix tok ''@'' \<and> Contains tok ''/''"
  then show "expandowners w tok = Some ([Go_expandteam tok], None, [])"
    by (simp add: expandowners_def)
  from team obtain org slug where tok: "tok = CHR ''@'' # org @ CHR ''/'' # slug" and org: "CHR ''/'' \<notin> set org"
    using team_token_split [of tok "CHR ''@''" "CHR ''/''"] by auto
  have tok': "tok = ''@'' @ org @ ''/'' @ slug" and org': "\<not> Contains org ''/''"
    using org by (simp_all add: tok Contains_single)
  have "slice tok 1 (Index tok ''/'') = Some org" "slice_from tok (Index tok ''/'' + 1) = Some slug"
    using org team_token_parts [of "CHR ''/''" org "CHR ''@''" slug]
    by (simp_all add: tok del: Index.simps)
  with tok' org' expandteam_org_slug [OF org', of w slug]
  show "\<exists>org slug. tok = ''@'' @ org @ ''/'' @ slug \<and> \<not> Contains org ''/'' \<and>
         slice tok 1 (Index tok ''/'') = Some org \<and>
         slice_from tok (Index tok ''/'' + 1) = Some slug \<and>
         expandteam w tok =
           (case ListTeams w org of
              Inl err \<Rightarrow> Some ([], Some (Err err), [Call_ListTeams org])
            | Inr teams \<Rightarrow>
                if teamid_loop slug teams = 0
                then Some ([], Some (Err (errors_New (''Failed to find team matching '' @ slug))),
                           [Call_ListTeams org])
                else (case ListTeamMembers w (teamid_loop slug teams) of
                        Inl err \<Rightarrow> Some ([], Some (Err err),
                                      [Call_ListTeams org, Call_ListTeamMembers (teamid_loop slug teams)])
                      | Inr users \<Rightarrow> Some (map Go_fetchuser users, None,
                                      [Call_ListTeams org, Call_ListTeamMembers (teamid_loop slug teams)])))"
    by (intro exI [of _ org] exI [of _ slug]) (simp only: simp_thms)
next
  assume "HasPrefix tok ''@'' \<and> \<not> Contains tok ''/''"
  then show "\<exists>login. tok = ''@'' @ login \<and> expandowners w tok = Some ([Go_fetchuser login], None, []) \<and>
         run w (Go_fetchuser login) =
           Some ([], Some (case UsersGet w login of Inl err \<Rightarrow> Err err | Inr user \<Rightarrow> Data user),
                 [Call_UsersGet login])"
    by (auto simp: expandowners_def HasPrefix_single slice_from_Cons fetchuser_def split: sum.splits)
next
  assume "\<not> HasPrefix tok ''@'' \<and> Contains tok ''@''"
  then show "expandowners w tok = Some ([Go_finduseremail tok], None, [])"
    by (simp add: expandowners_def)
  show "run w (Go_finduseremail tok) =
        Some ([], Some (case ParseAddress w tok of Inl err \<Rightarrow> Err err
                        | Inr e \<Rightarrow> Data \<lparr>Login = None, Name = None, Email = Some (Addr e)\<rparr>), [])"
    by (simp add: finduseremail_def split: sum.splits)
next
  assume "\<not> HasPrefix tok ''@'' \<and> \<not> Contains tok ''@''"
  then show "expandowners w tok =
        Some ([], Some (Err (errors_New
          (''Do not understand user specification %!(EXTRA string='' @ tok @ '')''))), [])"
    by (simp add: expandowners_def)
qed

theorem classification_witness:
  "(HasPrefix ''@example/team'' ''@'' \<and> Contains ''@example/team'' ''/'') \<and>
   expandowners (test_world []) ''@example/team'' = Some ([Go_expandteam ''@example/team''], None, []) \<and>
   slice ''@example/team'' 1 (Index ''@example/team'' ''/'') = Some ''example'' \<and>
   slice_from ''@example/team'' (Index ''@example/team'' ''/'' + 1) = Some ''team'' \<and>
   expandteam (test_world []) ''@example/team'' =
     Some ([Go_fetchuser ''juan'', Go_fetchuser ''joe''], None,
           [Call_ListTeams ''example'', Call_ListTeamMembers 72]) \<and>
   expandteam (test_world []) ''@team/example'' =
     Some ([], Some (Err (lib_error ''404 Not Found'')), [Call_ListTeams ''team'']) \<and>
   (HasPrefix ''@juan'' ''@'' \<and> \<not> Contains ''@juan'' ''/'') \<and>
   expandowners (test_world []) ''@juan'' = Some ([Go_fetchuser ''juan''], None, []) \<and>
   run (test_world []) (Go_fetchuser ''juan'') =
     Some ([], Some (Data \<lparr>Login = Some ''juan'', Name = Some ''Juan'', Email = None\<rparr>),
           [Call_UsersGet ''juan'']) \<and>
   (\<not> HasPrefix ''everyone@example.com'' ''@'' \<and> Contains ''everyone@example.com'' ''@'') \<and>
   expandowners (test_world []) ''everyone@example.com'' =
     Some ([Go_finduseremail ''everyone@example.com''], None, []) \<and>
   run (test_world []) (Go_finduseremail ''everyone@example.com'') =
     Some ([], Some (Data \<lparr>Login = None, Name = None, Email = Some ''everyone@example.com''\<rparr>), []) \<and>
   (\<not> HasPrefix ''not-valid'' ''@'' \<and> \<not> Contains ''not-valid'' ''@'') \<and>
   expandowners (test_world []) ''not-valid'' =
     Some ([], Some (Err (errors_New ''Do not understand user specification %!(EXTRA string=not-valid)'')), [])"
  using classification [of "''@example/team''" "test_world []"]
    classification [of "''@team/example''" "test_world []"]
    classification [of "''@juan''" "test_world []"]
    classification [of "''everyone@example.com''" "test_world []"]
    classification [of "''not-valid''" "test_world []"]
  by (simp add: HasPrefix_def Contains_def slice_def slice_from_def expandteam_def test_world_def
      simple_parse_def fetchuser_def finduseremail_def)




text \<open>
  C2, as amended. Take the token \<open>@org/slug\<close>, \<open>org\<close> without a \<open>/\<close>, and let the
  organisation's teams be listed. If no team has the slug, or the first team that has it
  has id 0, the expansion sends the one error \<open>Failed to find team matching slug\<close> and no
  user. If the first team that has the slug has an id other than 0 and its members are
  listed, \<open>expandteam\<close> starts one \<open>fetchuser\<close> per member, and every complete run returns
  exactly the results of these lookups.
\<close>

theorem team_expansion:
  assumes "\<not> Contains org ''/''" and "ListTeams w org = Inr teams"
  shows
    "((\<forall>team\<in>set teams. slug \<noteq> Slug team) \<longrightarrow>
        expandteam w (''@'' @ org @ ''/'' @ slug) =
          Some ([], Some (Err (errors_New (''Failed to find team matching '' @ slug))), [Call_ListTeams org]) \<and>
        messages w (Go_expandowners (''@'' @ org @ ''/'' @ slug)) =
          [Err (errors_New (''Failed to find team matching '' @ slug))]) \<and>
     (find (\<lambda>team. slug = Slug team) teams = Some team \<and> ID team = 0 \<longrightarrow>
        messages w (Go_expandowners (''@'' @ org @ ''/'' @ slug)) =
          [Err (errors_New (''Failed to find team matching '' @ slug))]) \<and>
     (find (\<lambda>team. slug = Slug team) teams = Some team \<and> ID team \<noteq> 0 \<and>
      ListTeamMembers w (ID team) = Inr members \<longrightarrow>
        expandteam w (''@'' @ org @ ''/'' @ slug) =
          Some (map Go_fetchuser members, None, [Call_ListTeams org, Call_ListTeamMembers (ID team)]) \<and>
        messages w (Go_expandowners (''@'' @ org @ ''/'' @ slug)) =
          map (\<lambda>name. case UsersGet w name of Inl err \<Rightarrow> Err err | Inr user \<Rightarrow> Data user) members \<and>
        (CtxDone \<notin> set sched \<and> length members + 2 \<le> length sched \<longrightarrow>
           (\<exists>users errs trace.
              collect w sched [Go_expandowners (''@'' @ org @ ''/'' @ slug)] [] [] [] =
                Returned users errs trace \<and>
              mset (map Data users @ map Err errs) =
                mset (map (\<lambda>name. case UsersGet w name of Inl err \<Rightarrow> Err err | Inr user \<Rightarrow> Data user)
                       members))))"
proof (intro conjI impI)
  let ?tok = "''@'' @ org @ ''/'' @ slug"
  let ?nf = "errors_New (''Failed to find team matching '' @ slug)"
  {
    assume "\<forall>team\<in>set teams. slug \<noteq> Slug team"
    then have none: "find (\<lambda>team. slug = Slug team) teams = None"
      by (simp add: find_None_iff)
    show "expandteam w ?tok = Some ([], Some (Err ?nf), [Call_ListTeams org])"
      using expandteam_found [OF assms, of slug] none by simp
    show "messages w (Go_expandowners ?tok) = [Err ?nf]"
      using messages_team [OF assms, of slug] none by simp
  }
  {
    assume "find (\<lambda>team. slug = Slug team) teams = Some team \<and> ID team = 0"
    then show "messages w (Go_expandowners ?tok) = [Err ?nf]"
      using messages_team [OF assms, of slug] by simp
  }
  {
    assume found: "find (\<lambda>team. slug = Slug team) teams = Some team \<and> ID team \<noteq> 0 \<and>
      ListTeamMembers w (ID team) = Inr members"
    then show team: "expandteam w ?tok =
        Some (map Go_fetchuser members, None, [Call_ListTeams org, Call_ListTeamMembers (ID team)])"
      using expandteam_found [OF assms, of slug] by simp
    show msgs: "messages w (Go_expandowners ?tok) =
        map (\<lambda>name. case UsersGet w name of Inl err \<Rightarrow> Err err | Inr user \<Rightarrow> Data user) members"
      using messages_team [OF assms, of slug] found by simp
    assume sched: "CtxDone \<notin> set sched \<and> length members + 2 \<le> length sched"
    have "length (concat (map (family w) [Go_expandowners ?tok])) \<le> length sched"
      using family_team [OF assms(1) team] sched by simp
    then obtain users errs trace where
      ret: "collect w sched [Go_expandowners ?tok] [] [] [] = Returned users errs trace"
      using collect_returns [of sched "[Go_expandowners ?tok]" w "[]" "[]" "[]"] sched by auto
    have "mset (map Data users @ map Err errs) =
        mset (map (\<lambda>name. case UsersGet w name of Inl err \<Rightarrow> Err err | Inr user \<Rightarrow> Data user) members)"
      using collect_all_messages [OF _ ret] sched msgs by simp
    with ret show "\<exists>users errs trace.
        collect w sched [Go_expandowners ?tok] [] [] [] = Returned users errs trace \<and>
        mset (map Data users @ map Err errs) =
          mset (map (\<lambda>name. case UsersGet w name of Inl err \<Rightarrow> Err err | Inr user \<Rightarrow> Data user) members)"
      by blast
  }
qed

theorem team_expansion_witness:
  "\<not> Contains ''example'' ''/'' \<and>
   ListTeams (test_world []) ''example'' =
     Inr [\<lparr>Slug = ''other'', ID = 55\<rparr>, \<lparr>Slug = ''team'', ID = 72\<rparr>, \<lparr>Slug = ''zero'', ID = 0\<rparr>] \<and>
   find (\<lambda>team. ''team'' = Slug team)
     [\<lparr>Slug = ''other'', ID = 55\<rparr>, \<lparr>Slug = ''team'', ID = 72\<rparr>, \<lparr>Slug = ''zero'', ID = 0\<rparr>] =
     Some \<lparr>Slug = ''team'', ID = 72\<rparr> \<and>
   ListTeamMembers (test_world []) 72 = Inr [''juan'', ''joe''] \<and>
   expandteam (test_world []) ''@example/team'' =
     Some ([Go_fetchuser ''juan'', Go_fetchuser ''joe''], None,
           [Call_ListTeams ''example'', Call_ListTeamMembers 72]) \<and>
   messages (test_world []) (Go_expandowners ''@example/team'') =
     [Data \<lparr>Login = Some ''juan'', Name = Some ''Juan'', Email = None\<rparr>,
      Data \<lparr>Login = Some ''joe'', Name = Some ''Joe'', Email = None\<rparr>] \<and>
   collect (test_world []) [Run 0, Run 0, Run 1, Run 0] [Go_expandowners ''@example/team''] [] [] [] =
     Returned [\<lparr>Login = Some ''joe'', Name = Some ''Joe'', Email = None\<rparr>,
               \<lparr>Login = Some ''juan'', Name = Some ''Juan'', Email = None\<rparr>] []
       [Call_ListTeams ''example'', Call_ListTeamMembers 72, Call_UsersGet ''joe'', Call_UsersGet ''juan''] \<and>
   expandteam (test_world []) ''@example/nope'' =
     Some ([], Some (Err (errors_New ''Failed to find team matching nope'')), [Call_ListTeams ''example''])"
  using team_expansion [of "''example''" "test_world []"
      "[\<lparr>Slug = ''other'', ID = 55\<rparr>, \<lparr>Slug = ''team'', ID = 72\<rparr>, \<lparr>Slug = ''zero'', ID = 0\<rparr>]"
      "''team''" "\<lparr>Slug = ''team'', ID = 72\<rparr>" "[''juan'', ''joe'']" "[Run 0, Run 0, Run 1, Run 0]"]
    team_expansion [of "''example''" "test_world []"
      "[\<lparr>Slug = ''other'', ID = 55\<rparr>, \<lparr>Slug = ''team'', ID = 72\<rparr>, \<lparr>Slug = ''zero'', ID = 0\<rparr>]"
      "''nope''" "\<lparr>Slug = ''team'', ID = 72\<rparr>" "[''juan'', ''joe'']" "[Run 0, Run 0, Run 1, Run 0]"]
  by (simp add: test_world_def Contains_def HasPrefix_def expandowners_def fetchuser_def)

text \<open>
  C2 as stated fails: the organisation lists a team with the slug \<open>zero\<close>, but its id is 0,
  the value \<open>teamid\<close> starts with; \<open>expandteam\<close> reports the team as not found and never
  asks for its members.
\<close>

theorem team_id_zero_counterexample:
  "ListTeams (test_world []) ''example'' =
     Inr [\<lparr>Slug = ''other'', ID = 55\<rparr>, \<lparr>Slug = ''team'', ID = 72\<rparr>, \<lparr>Slug = ''zero'', ID = 0\<rparr>] \<and>
   expandowners (test_world []) ''@example/zero'' = Some ([Go_expandteam ''@example/zero''], None, []) \<and>
   expandteam (test_world []) ''@example/zero'' =
     Some ([], Some (Err (errors_New ''Failed to find team matching zero'')), [Call_ListTeams ''example''])"
  by (simp add: test_world_def expandowners_def expandteam_def Contains_def HasPrefix_def slice_def
      slice_from_def)

section \<open>Aggregation\<close>

text \<open>
  C4. Once a rule is selected, \<open>Match\<close> never panics, and under every schedule without
  cancellation that is long enough for all goroutines to run it returns users and errors
  that are, as multisets, exactly what the owner tokens produce one by one: what a token
  contributes does not depend on its siblings. An invalid token contributes its one error,
  an address token the parser's verdict, a handle the result of its lookup.
\<close>

theorem best_effort:
  "Match_select w (patterns co) file None = Some toks \<Longrightarrow>
     Match w co sched file \<noteq> Panicked \<and>
     (CtxDone \<notin> set sched \<and>
      length (concat (map (\<lambda>tok. family w (Go_expandowners tok)) toks)) \<le> length sched \<longrightarrow>
        (\<exists>users errs trace.
           Match w co sched file = Returned users errs trace \<and>
           mset (map Data users @ map Err errs) =
             mset (concat (map (\<lambda>tok. messages w (Go_expandowners tok)) toks)))) \<and>
     (\<not> HasPrefix tok ''@'' \<and> \<not> Contains tok ''@'' \<longrightarrow>
        messages w (Go_expandowners tok) =
          [Err (errors_New (''Do not understand user specification %!(EXTRA string='' @ tok @ '')''))]) \<and>
     (\<not> HasPrefix tok ''@'' \<and> Contains tok ''@'' \<longrightarrow>
        messages w (Go_expandowners tok) =
          [case ParseAddress w tok of Inl err \<Rightarrow> Err err
           | Inr e \<Rightarrow> Data \<lparr>Login = None, Name = None, Email = Some (Addr e)\<rparr>]) \<and>
     (\<not> Contains login ''/'' \<longrightarrow>
        messages w (Go_expandowners (''@'' @ login)) =
          [case UsersGet w login of Inl err \<Rightarrow> Err err | Inr user \<Rightarrow> Data user])"
proof (intro conjI impI)
  assume sel: "Match_select w (patterns co) file None = Some toks"
  then have m: "Match w co sched file = collect w sched (map Go_expandowners toks) [] [] []"
    by (simp add: Match_def)
  show "Match w co sched file \<noteq> Panicked"
    unfolding m by (rule collect_never_panics) (rule expandowners_pool_well_formed)
  {
    assume sched: "CtxDone \<notin> set sched \<and>
      length (concat (map (\<lambda>tok. family w (Go_expandowners tok)) toks)) \<le> length sched"
    then have "length (concat (map (family w) (map Go_expandowners toks))) \<le> length sched"
      by (simp add: comp_def)
    then obtain users errs trace where
      ret: "collect w sched (map Go_expandowners toks) [] [] [] = Returned users errs trace"
      using collect_returns [OF _ expandowners_pool_well_formed, of sched w toks "[]" "[]" "[]"] sched
      by blast
    have "mset (map Data users @ map Err errs) =
        mset (concat (map (\<lambda>tok. messages w (Go_expandowners tok)) toks))"
      using collect_all_messages [OF _ ret] sched by (simp add: comp_def)
    with ret show "\<exists>users errs trace.
        Match w co sched file = Returned users errs trace \<and>
        mset (map Data users @ map Err errs) =
          mset (concat (map (\<lambda>tok. messages w (Go_expandowners tok)) toks))"
      unfolding m by blast
  }
next
  assume "\<not> HasPrefix tok ''@'' \<and> \<not> Contains tok ''@''"
  then show "messages w (Go_expandowners tok) =
      [Err (errors_New (''Do not understand user specification %!(EXTRA string='' @ tok @ '')''))]"
    by (simp add: messages_invalid)
next
  assume "\<not> HasPrefix tok ''@'' \<and> Contains tok ''@''"
  then show "messages w (Go_expandowners tok) =
      [case ParseAddress w tok of Inl err \<Rightarrow> Err err
       | Inr e \<Rightarrow> Data \<lparr>Login = None, Name = None, Email = Some (Addr e)\<rparr>]"
    by (simp add: messages_email)
next
  assume "\<not> Contains login ''/''"
  then show "messages w (Go_expandowners (''@'' @ login)) =
      [case UsersGet w login of Inl err \<Rightarrow> Err err | Inr user \<Rightarrow> Data user]"
    by (rule messages_handle)
qed

theorem best_effort_witness:
  "Match_select (test_world [])
     (patterns \<lparr>owner = ''example'', repo = ''repo'',
        patterns = [\<lparr>path = ''**'', owners = Some [''@juan'', ''not-valid'', ''everyone@example.com'']\<rparr>]\<rparr>)
     ''file.txt'' None = Some [''@juan'', ''not-valid'', ''everyone@example.com''] \<and>
   (\<not> HasPrefix ''not-valid'' ''@'' \<and> \<not> Contains ''not-valid'' ''@'') \<and>
   Match (test_world [])
     \<lparr>owner = ''example'', repo = ''repo'',
      patterns = [\<lparr>path = ''**'', owners = Some [''@juan'', ''not-valid'', ''everyone@example.com'']\<rparr>]\<rparr>
     [Run 0, Run 0, Run 0, Run 0, Run 0] ''file.txt'' =
     Returned [\<lparr>Login = Some ''juan'', Name = Some ''Juan'', Email = None\<rparr>,
               \<lparr>Login = None, Name = None, Email = Some ''everyone@example.com''\<rparr>]
       [errors_New ''Do not understand user specification %!(EXTRA string=not-valid)'']
       [Call_UsersGet ''juan''] \<and>
   messages (test_world []) (Go_expandowners ''not-valid'') =
     [Err (errors_New ''Do not understand user specification %!(EXTRA string=not-valid)'')]"
  using best_effort [of "test_world []"
      "\<lparr>owner = ''example'', repo = ''repo'',
        patterns = [\<lparr>path = ''**'', owners = Some [''@juan'', ''not-valid'', ''everyone@example.com'']\<rparr>]\<rparr>"
      "''file.txt''" "[''@juan'', ''not-valid'', ''everyone@example.com'']"
      "[Run 0, Run 0, Run 0, Run 0, Run 0]" "''not-valid''" "''juan''"]
  by (simp add: Match_def test_world_def simple_glob_def simple_parse_def HasPrefix_def Contains_def
      expandowners_def fetchuser_def finduseremail_def slice_from_def slice_def)



end
